theory Spec2Isabelle
  imports Main
begin

section \<open>Strings of the host language\<close>

text \<open>
  A JavaScript string is modelled as a \<^typ>\<open>string\<close>, one \<^typ>\<open>char\<close> for each code unit
  (code units above 255 are outside the model).  A value that may be \<open>null\<close> or
  \<open>undefined\<close> is an \<open>option\<close>, with \<open>None\<close> for the absent value.
\<close>

definition substring :: "string \<Rightarrow> nat \<Rightarrow> nat \<Rightarrow> string" where
  \<comment> \<open>\<open>String.prototype.substring\<close>: both indices are clamped to the length, and swapped
      when the first is the larger one.\<close>
  "substring s a b =
     (let a' = min a (length s); b' = min b (length s);
          lo = min a' b'; hi = max a' b'
      in take (hi - lo) (drop lo s))"

definition falsy :: "string option \<Rightarrow> bool" where
  \<comment> \<open>\<open>!x\<close> for a value that is a string, \<open>null\<close> or \<open>undefined\<close>.\<close>
  "falsy x = (case x of None \<Rightarrow> True | Some s \<Rightarrow> s = [])"

section \<open>Best move to arrow (ChessCoach.js)\<close>

type_synonym arrow = "string \<times> string \<times> string"

definition arrow_colour :: string where
  "arrow_colour = ''rgb(0, 128, 255)''"

definition bestMoveToArrow :: "string option \<Rightarrow> arrow list" where
  "bestMoveToArrow move =
     (case move of
        None \<Rightarrow> []
      | Some m \<Rightarrow>
          if m = [] \<or> length m < 4 then []
          else if m = ''e1g1'' then [(''e1'', ''g1'', arrow_colour)]
          else if m = ''e1c1'' then [(''e1'', ''c1'', arrow_colour)]
          else if m = ''e8g8'' then [(''e8'', ''g8'', arrow_colour)]
          else if m = ''e8c8'' then [(''e8'', ''c8'', arrow_colour)]
          else [(substring m 0 2, substring m 2 4, arrow_colour)])"

section \<open>The rules engine, an external collaborator\<close>

text \<open>
  ChessCoach.js uses the library chess.js, which is not part of the repository.  The
  operations the component calls are taken as a parameter: a record of functions over
  a type \<open>'g\<close> of game objects and a type \<open>'m\<close> of move objects.  The library mutates a
  game object in place, here an operation returns the new object.  An operation that
  can throw returns \<open>None\<close> for the exception: \<open>loadPgn\<close> throws on a malformed
  transcript, and \<open>move\<close> on a move that the position does not allow (\<open>makeMove\<close> also
  treats a \<open>null\<close> result of \<open>move\<close> as that case).
\<close>

record ('g, 'm) Chess =
  new_Chess :: 'g  \<comment> \<open>\<open>new Chess()\<close>, the standard initial position\<close>
  loadPgn :: "'g \<Rightarrow> string \<Rightarrow> 'g option"  \<comment> \<open>\<open>g.loadPgn(text)\<close>\<close>
  history_verbose :: "'g \<Rightarrow> 'm list"  \<comment> \<open>\<open>g.history({ verbose: true })\<close>\<close>
  history :: "'g \<Rightarrow> string list"  \<comment> \<open>\<open>g.history()\<close>, the moves in algebraic notation\<close>
  move :: "'g \<Rightarrow> 'm \<Rightarrow> 'g option"  \<comment> \<open>\<open>g.move(m)\<close>\<close>
  san :: "'g \<Rightarrow> 'm \<Rightarrow> string"  \<comment> \<open>\<open>g.move(m).san\<close>, the notation of \<open>m\<close> played in \<open>g\<close>\<close>

section \<open>The component state (ChessCoach.js)\<close>

record analysis_result =
  best_move :: "string option"
  is_mate :: bool
  mate_in :: int

record ('g, 'm) coach =
  game :: 'g
  moveHistory :: "string list"
  analysis :: "analysis_result option"
  arrows :: "arrow list"
  showBestMove :: bool
  currentMoveIndex :: int
  moves :: "'m list"
  isReviewMode :: bool
  pgnInput :: string
  errorMessage :: string

definition initial_coach :: "('g, 'm) Chess \<Rightarrow> ('g, 'm) coach" where
  \<comment> \<open>the arguments of the \<open>useState\<close> calls\<close>
  "initial_coach E =
     \<lparr>game = new_Chess E, moveHistory = [], analysis = None, arrows = [],
      showBestMove = False, currentMoveIndex = 0, moves = [], isReviewMode = False,
      pgnInput = [], errorMessage = []\<rparr>"

datatype error = EngineError  \<comment> \<open>an exception of the rules engine that nothing catches\<close>

subsection \<open>loadGame\<close>

definition loadGame :: "('g, 'm) Chess \<Rightarrow> ('g, 'm) coach \<Rightarrow> ('g, 'm) coach" where
  "loadGame E st =
     (case loadPgn E (new_Chess E) (pgnInput st) of
        None \<Rightarrow> st\<lparr>errorMessage := ''Invalid PGN format. Please check your input''\<rparr>
      | Some newGame \<Rightarrow>
          st\<lparr>game := new_Chess E,
             moves := history_verbose E newGame,
             currentMoveIndex := 0,
             isReviewMode := True,
             errorMessage := [],
             moveHistory := history E newGame\<rparr>)"

subsection \<open>goToMove and its wrappers\<close>

text \<open>
  The loop \<open>for (let i = 0; i <= index && i < moves.length; i++) newGame.move(moves[i])\<close>,
  with the loop counter and the game object as arguments.
\<close>

function replay_loop ::
  "('g, 'm) Chess \<Rightarrow> 'm list \<Rightarrow> int \<Rightarrow> nat \<Rightarrow> 'g \<Rightarrow> 'g option" where
  "replay_loop E ms index i g =
     (if int i \<le> index \<and> i < length ms
      then (case move E g (ms ! i) of
              None \<Rightarrow> None
            | Some g' \<Rightarrow> replay_loop E ms index (Suc i) g')
      else Some g)"
  by pat_completeness auto
termination
  by (relation "measure (\<lambda>(E, ms, index, i, g). length ms - i)") auto

declare replay_loop.simps [simp del]

definition goToMove ::
  "('g, 'm) Chess \<Rightarrow> ('g, 'm) coach \<Rightarrow> int \<Rightarrow> error + ('g, 'm) coach" where
  "goToMove E st index =
     (case replay_loop E (moves st) index 0 (new_Chess E) of
        None \<Rightarrow> Inl EngineError
      | Some newGame \<Rightarrow>
          Inr (st\<lparr>game := newGame, currentMoveIndex := index, showBestMove := False\<rparr>))"

definition goToNextMove :: "('g, 'm) Chess \<Rightarrow> ('g, 'm) coach \<Rightarrow> error + ('g, 'm) coach" where
  "goToNextMove E st =
     (if currentMoveIndex st < int (length (moves st)) - 1
      then goToMove E st (currentMoveIndex st + 1)
      else Inr st)"

definition goToPreviousMove :: "('g, 'm) Chess \<Rightarrow> ('g, 'm) coach \<Rightarrow> error + ('g, 'm) coach" where
  "goToPreviousMove E st =
     (if currentMoveIndex st > 0
      then goToMove E st (currentMoveIndex st - 1)
      else Inr st)"

subsection \<open>The arrows effect and direct play\<close>

definition arrows_effect :: "('g, 'm) coach \<Rightarrow> ('g, 'm) coach" where
  \<comment> \<open>the \<open>useEffect\<close> on \<open>[analysis, showBestMove]\<close>\<close>
  "arrows_effect st =
     (case analysis st of
        None \<Rightarrow> st\<lparr>arrows := []\<rparr>
      | Some a \<Rightarrow>
          if showBestMove st \<and> \<not> falsy (best_move a)
          then st\<lparr>arrows := bestMoveToArrow (best_move a)\<rparr>
          else st\<lparr>arrows := []\<rparr>)"

definition makeMove :: "('g, 'm) Chess \<Rightarrow> ('g, 'm) coach \<Rightarrow> 'm \<Rightarrow> ('g, 'm) coach \<times> bool" where
  "makeMove E st m =
     (case move E (game st) m of
        None \<Rightarrow> (st, False)
      | Some gameCopy \<Rightarrow>
          (st\<lparr>game := gameCopy,
              moveHistory := moveHistory st @ [san E (game st) m],
              showBestMove := False\<rparr>, True))"

subsection \<open>The cursor invariant of the specification, and replay as a fold\<close>

definition cursor_in_bounds :: "('g, 'm) coach \<Rightarrow> bool" where
  "cursor_in_bounds st =
     (- 1 \<le> currentMoveIndex st \<and> currentMoveIndex st < int (length (moves st)))"

definition after_call :: "error + ('g, 'm) coach \<Rightarrow> ('g, 'm) coach \<Rightarrow> ('g, 'm) coach" where
  \<comment> \<open>the state of the component after a call made in \<open>st\<close>: \<open>goToMove\<close> calls its setters
      after the loop, so a call that throws in the loop has set nothing\<close>
  "after_call r st = (case r of Inl e \<Rightarrow> st | Inr st' \<Rightarrow> st')"

fun play :: "('g, 'm) Chess \<Rightarrow> 'm list \<Rightarrow> 'g \<Rightarrow> 'g option" where
  "play E [] g = Some g"
| "play E (m # ms) g = (case move E g m of None \<Rightarrow> None | Some g' \<Rightarrow> play E ms g')"

subsection \<open>A small rules engine to run the model on\<close>

text \<open>
  A stand-in for the library: a game is the list of the moves played, a move is a
  character, a transcript is the string of its moves, and the character \<open>?\<close> is neither
  a legal move nor allowed in a transcript.
\<close>

definition demo_Chess :: "(string, char) Chess" where
  "demo_Chess =
     \<lparr>new_Chess = [],
      loadPgn = (\<lambda>g t. if CHR ''?'' \<in> set t then None else Some (g @ t)),
      history_verbose = (\<lambda>g. g),
      history = (\<lambda>g. map (\<lambda>c. [c]) g),
      move = (\<lambda>g m. if m = CHR ''?'' then None else Some (g @ [m])),
      san = (\<lambda>g m. [m])\<rparr>"

text \<open>States of the stand-in engine that the concrete evaluations start from.\<close>

definition demo_loaded :: "(string, char) coach" where
  "demo_loaded = loadGame demo_Chess ((initial_coach demo_Chess)\<lparr>pgnInput := ''abc''\<rparr>)"

definition demo_played :: "(string, char) coach" where
  "demo_played = fst (makeMove demo_Chess demo_loaded CHR ''x'')"

text \<open>
  A second stand-in, for transcripts that set up a position of their own, as a PGN with
  the headers \<open>SetUp\<close> and \<open>FEN\<close> does.  A game is the flag of a set-up position with
  the list of the moves played.  A transcript that begins with \<open>#\<close> sets the position up,
  and its moves are the characters after it.  The move \<open>!\<close> is legal in a set-up
  position only, so the history of such a transcript need not replay from \<open>new Chess()\<close>.
\<close>

definition setup_Chess :: "(bool \<times> string, char) Chess" where
  "setup_Chess =
     \<lparr>new_Chess = (False, []),
      loadPgn = (\<lambda>g t.
        if CHR ''?'' \<in> set t then None
        else case t of
          [] \<Rightarrow> Some g
        | c # rest \<Rightarrow> if c = CHR ''#'' then Some (True, rest) else Some (fst g, snd g @ t)),
      history_verbose = (\<lambda>g. snd g),
      history = (\<lambda>g. map (\<lambda>c. [c]) (snd g)),
      move = (\<lambda>g m.
        if m = CHR ''?'' \<or> (m = CHR ''!'' \<and> \<not> fst g) then None
        else Some (fst g, snd g @ [m])),
      san = (\<lambda>g m. [m])\<rparr>"

definition setup_loaded :: "(bool \<times> string, char) coach" where
  "setup_loaded = loadGame setup_Chess ((initial_coach setup_Chess)\<lparr>pgnInput := ''#a!c''\<rparr>)"

definition setup_shown :: "(bool \<times> string, char) coach" where
  "setup_shown =
     setup_loaded\<lparr>showBestMove := True,
       analysis := Some \<lparr>best_move = Some ''e2e4'', is_mate = False, mate_in = 0\<rparr>\<rparr>"

section \<open>JSON serialisation\<close>

text \<open>
  The values that the client serialises are objects of strings and integers.
  \<open>JSON.stringify\<close> writes the members of an object in the order of their creation, a
  string between double quotes with the escapes of \<open>QuoteJSONString\<close>, and an integer in
  decimal.
\<close>

datatype json = JString string | JNumber int | JObject "(string \<times> json) list"

definition digit_char :: "nat \<Rightarrow> char" where
  "digit_char n = ''0123456789'' ! n"

definition hex_digit :: "nat \<Rightarrow> char" where
  "hex_digit n = ''0123456789abcdef'' ! n"

fun decimal :: "nat \<Rightarrow> string" where
  "decimal n = (if n < 10 then [digit_char n] else decimal (n div 10) @ [digit_char (n mod 10)])"

declare decimal.simps [simp del]

definition Number_toString :: "int \<Rightarrow> string" where
  "Number_toString n = (if n < 0 then CHR ''-'' # decimal (nat (- n)) else decimal (nat n))"

definition escape_unit :: "char \<Rightarrow> string" where
  "escape_unit c =
     (if c = CHR 0x22 then [CHR 0x5C, CHR 0x22]
      else if c = CHR 0x5C then [CHR 0x5C, CHR 0x5C]
      else if c = CHR 0x08 then [CHR 0x5C, CHR ''b'']
      else if c = CHR 0x0C then [CHR 0x5C, CHR ''f'']
      else if c = CHR 0x0A then [CHR 0x5C, CHR ''n'']
      else if c = CHR 0x0D then [CHR 0x5C, CHR ''r'']
      else if c = CHR 0x09 then [CHR 0x5C, CHR ''t'']
      else if (of_char c :: nat) < 32
        then [CHR 0x5C, CHR ''u'', CHR ''0'', CHR ''0'',
              hex_digit (of_char c div 16), hex_digit (of_char c mod 16)]
      else [c])"

definition QuoteJSONString :: "string \<Rightarrow> string" where
  "QuoteJSONString s = CHR 0x22 # concat (map escape_unit s) @ [CHR 0x22]"

fun JSON_stringify :: "json \<Rightarrow> string"
  and stringify_members :: "(string \<times> json) list \<Rightarrow> string" where
  "JSON_stringify (JString s) = QuoteJSONString s"
| "JSON_stringify (JNumber n) = Number_toString n"
| "JSON_stringify (JObject kvs) = ''{'' @ stringify_members kvs @ ''}''"
| "stringify_members [] = []"
| "stringify_members [(k, v)] = QuoteJSONString k @ '':'' @ JSON_stringify v"
| "stringify_members ((k, v) # kv # kvs) =
     QuoteJSONString k @ '':'' @ JSON_stringify v @ '','' @ stringify_members (kv # kvs)"

section \<open>The connection manager (api.js)\<close>

text \<open>
  The object of class \<open>AnalysisWebSocket\<close> and the part of the browser it acts on are
  one record.  The fields \<open>ws\<close>, \<open>reconnectAttempts\<close>, \<open>maxReconnectAttempts\<close> and
  \<open>connected\<close> are the fields of the object; \<open>ws\<close> refers to a socket by its position in
  \<open>sockets\<close>.  The other fields are the environment:
  \<^item> \<open>sockets\<close>: the \<open>readyState\<close> of every \<open>WebSocket\<close> created so far, in creation order
    (the handlers of a replaced socket still refer to the object);
  \<^item> \<open>timers\<close>: the delays of the pending \<open>setTimeout\<close> calls, whose callback is always
    \<open>this.connect()\<close>;
  \<^item> \<open>sent\<close>: the calls of \<open>send\<close>, as socket and data;
  \<^item> \<open>fetches\<close>: the requests of \<open>analyzePosition\<close> that \<open>fallbackToHttp\<close> awaits;
  \<^item> \<open>onAnalysis_log\<close>: the arguments of the calls of the callback \<open>onAnalysis\<close>.
  The type \<open>'r\<close> is the type of parsed analysis results.  Console output is left out.
\<close>

datatype readyState = CONNECTING | OPEN | CLOSING | CLOSED

record fetch_request =
  url :: string
  http_method :: string
  content_type :: string
  body :: string

record 'r session =
  ws :: "nat option"
  reconnectAttempts :: nat
  maxReconnectAttempts :: nat
  connected :: bool
  sockets :: "readyState list"
  timers :: "nat list"
  sent :: "(nat \<times> string) list"
  fetches :: "fetch_request list"
  onAnalysis_log :: "'r list"

definition API_URL :: string where
  "API_URL = ''http://localhost:8000''"

definition constructor :: "'r session" where
  "constructor =
     \<lparr>ws = None, reconnectAttempts = 0, maxReconnectAttempts = 5, connected = False,
      sockets = [], timers = [], sent = [], fetches = [], onAnalysis_log = []\<rparr>"

definition ws_close :: "nat \<Rightarrow> readyState list \<Rightarrow> readyState list" where
  \<comment> \<open>\<open>WebSocket.close()\<close>: nothing on a closing or closed socket, otherwise the socket
      starts closing; the close event comes later.\<close>
  "ws_close i socks =
     (if i < length socks \<and> socks ! i \<noteq> CLOSING \<and> socks ! i \<noteq> CLOSED
      then socks[i := CLOSING] else socks)"

definition channel_open :: "'r session \<Rightarrow> bool" where
  \<comment> \<open>\<open>this.ws && this.ws.readyState === WebSocket.OPEN\<close>\<close>
  "channel_open w =
     (case ws w of None \<Rightarrow> False | Some i \<Rightarrow> i < length (sockets w) \<and> sockets w ! i = OPEN)"

definition analyzePosition :: "string \<Rightarrow> int option \<Rightarrow> 'r session \<Rightarrow> 'r session" where
  \<comment> \<open>the call of \<open>fetch\<close>; the default of \<open>depth\<close> is 20\<close>
  "analyzePosition fen depth w =
     (let d = (case depth of None \<Rightarrow> 20 | Some n \<Rightarrow> n) in
      w\<lparr>fetches := fetches w @
          [\<lparr>url = API_URL @ ''/analyze'', http_method = ''POST'',
            content_type = ''application/json'',
            body = JSON_stringify (JObject [(''fen'', JString fen), (''depth'', JNumber d)])\<rparr>]\<rparr>)"

definition connect :: "'r session \<Rightarrow> 'r session" where
  "connect w =
     (let socks = (case ws w of None \<Rightarrow> sockets w | Some i \<Rightarrow> ws_close i (sockets w))
      in w\<lparr>sockets := socks @ [CONNECTING], ws := Some (length socks)\<rparr>)"

definition fallbackToHttp :: "string option \<Rightarrow> 'r session \<Rightarrow> 'r session" where
  \<comment> \<open>up to the \<open>await\<close>\<close>
  "fallbackToHttp fen w =
     (if falsy fen then w
      else case fen of None \<Rightarrow> w | Some f \<Rightarrow> analyzePosition f None w)"

datatype 'r http_outcome =
    Network_failure  \<comment> \<open>\<open>fetch\<close> rejects\<close>
  | Not_ok string  \<comment> \<open>\<open>response.ok\<close> is false; the text of the response\<close>
  | Body_not_json  \<comment> \<open>\<open>response.json()\<close> rejects\<close>
  | Ok_json 'r

definition fallback_settled :: "nat \<Rightarrow> 'r http_outcome \<Rightarrow> 'r session \<Rightarrow> 'r session" where
  \<comment> \<open>\<open>fallbackToHttp\<close> after the \<open>await\<close>, for the pending request \<open>k\<close>\<close>
  "fallback_settled k out w =
     (let w' = w\<lparr>fetches := take k (fetches w) @ drop (Suc k) (fetches w)\<rparr> in
      case out of
        Ok_json result \<Rightarrow> w'\<lparr>onAnalysis_log := onAnalysis_log w' @ [result]\<rparr>
      | _ \<Rightarrow> w')"

definition tryReconnect :: "'r session \<Rightarrow> 'r session" where
  "tryReconnect w =
     (if reconnectAttempts w < maxReconnectAttempts w
      then w\<lparr>reconnectAttempts := reconnectAttempts w + 1, timers := timers w @ [2000]\<rparr>
      else w)"

definition onopen :: "'r session \<Rightarrow> 'r session" where
  "onopen w = w\<lparr>connected := True, reconnectAttempts := 0\<rparr>"

definition onmessage :: "'r option \<Rightarrow> 'r session \<Rightarrow> 'r session" where
  \<comment> \<open>the argument is the outcome of \<open>JSON.parse(event.data)\<close>, \<open>None\<close> when it throws\<close>
  "onmessage parsed w =
     (case parsed of
        None \<Rightarrow> w
      | Some a \<Rightarrow> w\<lparr>onAnalysis_log := onAnalysis_log w @ [a]\<rparr>)"

definition onclose :: "'r session \<Rightarrow> 'r session" where
  "onclose w = tryReconnect (w\<lparr>connected := False\<rparr>)"

definition onerror :: "'r session \<Rightarrow> 'r session" where
  "onerror w = fallbackToHttp None w"

definition analyze :: "string option \<Rightarrow> 'r session \<Rightarrow> 'r session" where
  "analyze fen w =
     (if falsy fen then w
      else if channel_open w
        then (case (ws w, fen) of
                (Some i, Some f) \<Rightarrow>
                  w\<lparr>sent := sent w @ [(i, JSON_stringify (JObject [(''fen'', JString f)]))]\<rparr>
              | _ \<Rightarrow> w)
      else fallbackToHttp fen w)"

definition disconnect :: "'r session \<Rightarrow> 'r session" where
  "disconnect w =
     (case ws w of
        None \<Rightarrow> w
      | Some i \<Rightarrow> w\<lparr>sockets := ws_close i (sockets w), connected := False\<rparr>)"

subsection \<open>Runs of the connection manager\<close>

text \<open>
  What can happen to the object: a call by the host, an event of a socket, the firing
  of the oldest pending timer (all delays are equal), the settling of a pending request.
  \<open>step\<close> is \<open>None\<close> when the browser cannot deliver the event in the state: a socket opens
  only while connecting and is closed only once, a message comes on an open socket.
\<close>

datatype 'r event =
    Call_connect
  | Call_analyze "string option"
  | Call_disconnect
  | Ev_open nat
  | Ev_message nat "'r option"
  | Ev_close nat
  | Ev_error nat
  | Ev_timeout
  | Ev_response nat "'r http_outcome"

fun step :: "'r event \<Rightarrow> 'r session \<Rightarrow> 'r session option" where
  "step Call_connect w = Some (connect w)"
| "step (Call_analyze fen) w = Some (analyze fen w)"
| "step Call_disconnect w = Some (disconnect w)"
| "step (Ev_open i) w =
     (if i < length (sockets w) \<and> sockets w ! i = CONNECTING
      then Some (onopen (w\<lparr>sockets := (sockets w)[i := OPEN]\<rparr>)) else None)"
| "step (Ev_message i parsed) w =
     (if i < length (sockets w) \<and> sockets w ! i = OPEN
      then Some (onmessage parsed w) else None)"
| "step (Ev_close i) w =
     (if i < length (sockets w) \<and> sockets w ! i \<noteq> CLOSED
      then Some (onclose (w\<lparr>sockets := (sockets w)[i := CLOSED]\<rparr>)) else None)"
| "step (Ev_error i) w =
     (if i < length (sockets w) \<and> sockets w ! i \<noteq> CLOSED
      then Some (onerror w) else None)"
| "step Ev_timeout w =
     (case timers w of [] \<Rightarrow> None | d # ts \<Rightarrow> Some (connect (w\<lparr>timers := ts\<rparr>)))"
| "step (Ev_response k out) w =
     (if k < length (fetches w) then Some (fallback_settled k out w) else None)"

fun run :: "'r event list \<Rightarrow> 'r session \<Rightarrow> 'r session option" where
  "run [] w = Some w"
| "run (e # es) w = (case step e w of None \<Rightarrow> None | Some w' \<Rightarrow> run es w')"

fun is_open :: "'r event \<Rightarrow> bool" where
  "is_open (Ev_open i) = True"
| "is_open e = False"

fun is_close :: "'r event \<Rightarrow> bool" where
  "is_close (Ev_close i) = True"
| "is_close e = False"

definition closures :: "'r event list \<Rightarrow> nat" where
  "closures es = length (filter is_close es)"

subsection \<open>Sessions and runs that the concrete evaluations use\<close>

definition demo_session :: "analysis_result session" where
  "demo_session =
     \<lparr>ws = Some 0, reconnectAttempts = 0, maxReconnectAttempts = 5, connected = True,
      sockets = [OPEN], timers = [], sent = [], fetches = [], onAnalysis_log = []\<rparr>"

definition demo_reply :: analysis_result where
  "demo_reply = \<lparr>best_move = Some ''e2e4'', is_mate = False, mate_in = 0\<rparr>"

definition five_closures :: "analysis_result event list" where
  "five_closures =
     [Call_connect, Ev_close 0, Ev_timeout, Ev_close 1, Ev_timeout, Ev_close 2,
      Ev_timeout, Ev_close 3, Ev_timeout, Ev_close 4, Ev_timeout]"

definition demo_failed_over :: "analysis_result session" where
  "demo_failed_over =
     \<lparr>ws = Some 5, reconnectAttempts = 5, maxReconnectAttempts = 5, connected = False,
      sockets = [CLOSED, CLOSED, CLOSED, CLOSED, CLOSED, CONNECTING], timers = [],
      sent = [], fetches = [], onAnalysis_log = []\<rparr>"

section \<open>Properties of the best-move arrow\<close>

lemma substring_prefix: "4 \<le> length s \<Longrightarrow> substring s 0 2 = take 2 s"
  by (simp add: substring_def Let_def)

lemma substring_middle: "4 \<le> length s \<Longrightarrow> substring s 2 4 = take 2 (drop 2 s)"
  by (simp add: substring_def Let_def)

lemma bestMoveToArrow_long:
  assumes "4 \<le> length s"
  shows "bestMoveToArrow (Some s) = [(take 2 s, take 2 (drop 2 s), arrow_colour)]"
proof -
  from assms have ne: "s \<noteq> []" "\<not> length s < 4" by auto
  consider "s = ''e1g1''" | "s = ''e1c1''" | "s = ''e8g8''" | "s = ''e8c8''"
    | "s \<noteq> ''e1g1''" "s \<noteq> ''e1c1''" "s \<noteq> ''e8g8''" "s \<noteq> ''e8c8''"
    by blast
  then show ?thesis
  proof cases
    case 5
    with ne assms show ?thesis
      by (simp add: bestMoveToArrow_def substring_prefix substring_middle)
  qed (simp_all add: bestMoveToArrow_def)
qed

text \<open>
  Claim C8.  A coordinate move string of at least four characters is mapped to exactly one
  arrow, from the square named by its first two characters to the square named by its
  next two characters; the four castling strings have branches of their own, which draw
  the king's movement; \<open>e1g1\<close> gives the pair (e1, g1) and \<open>e2e4\<close> gives (e2, e4); an
  absent move and a string shorter than four characters give no arrow.
\<close>

theorem bestMoveToArrow_pair:
  "(4 \<le> length s \<longrightarrow>
      bestMoveToArrow (Some s) = [(take 2 s, take 2 (drop 2 s), arrow_colour)])
   \<and> bestMoveToArrow (Some ''e1g1'') = [(''e1'', ''g1'', arrow_colour)]
   \<and> bestMoveToArrow (Some ''e1c1'') = [(''e1'', ''c1'', arrow_colour)]
   \<and> bestMoveToArrow (Some ''e8g8'') = [(''e8'', ''g8'', arrow_colour)]
   \<and> bestMoveToArrow (Some ''e8c8'') = [(''e8'', ''c8'', arrow_colour)]
   \<and> bestMoveToArrow (Some ''e2e4'') = [(''e2'', ''e4'', arrow_colour)]
   \<and> bestMoveToArrow None = []
   \<and> (length s < 4 \<longrightarrow> bestMoveToArrow (Some s) = [])"
proof -
  have long: "4 \<le> length s \<longrightarrow>
      bestMoveToArrow (Some s) = [(take 2 s, take 2 (drop 2 s), arrow_colour)]"
    using bestMoveToArrow_long by blast
  have e2e4: "bestMoveToArrow (Some ''e2e4'') = [(''e2'', ''e4'', arrow_colour)]"
    by (simp add: bestMoveToArrow_def substring_def)
  have short: "length s < 4 \<longrightarrow> bestMoveToArrow (Some s) = []"
    by (simp add: bestMoveToArrow_def)
  show ?thesis
    using long e2e4 short by (simp add: bestMoveToArrow_def)
qed

theorem bestMoveToArrow_pair_witness:
  "bestMoveToArrow (Some ''g1f3'') = [(''g1'', ''f3'', arrow_colour)]
   \<and> bestMoveToArrow (Some ''e7e8q'') = [(''e7'', ''e8'', arrow_colour)]
   \<and> bestMoveToArrow (Some ''e2'') = []"
  using bestMoveToArrow_pair [of "''g1f3''"] bestMoveToArrow_pair [of "''e7e8q''"]
    bestMoveToArrow_pair [of "''e2''"]
  by simp

section \<open>Properties of the navigation engine\<close>

lemma replay_loop_play:
  "replay_loop E ms index i g = play E (take (nat (index + 1) - i) (drop i ms)) g"
proof (induction E ms index i g rule: replay_loop.induct)
  case (1 E ms index i g)
  show ?case
  proof (cases "int i \<le> index \<and> i < length ms")
    case True
    then have len: "nat (index + 1) - i = Suc (nat (index + 1) - Suc i)" by linarith
    from True have dr: "drop i ms = ms ! i # drop (Suc i) ms"
      by (simp add: Cons_nth_drop_Suc)
    show ?thesis
    proof (cases "move E g (ms ! i)")
      case None
      with True len dr show ?thesis
        by (subst replay_loop.simps) simp
    next
      case (Some g')
      with True have "replay_loop E ms index i g = replay_loop E ms index (Suc i) g'"
        by (subst replay_loop.simps) simp
      also have "\<dots> = play E (take (nat (index + 1) - Suc i) (drop (Suc i) ms)) g'"
        using "1.IH" True Some by simp
      finally show ?thesis using len dr Some by simp
    qed
  next
    case False
    then have e: "take (nat (index + 1) - i) (drop i ms) = []" by auto
    from False have "replay_loop E ms index i g = Some g"
      by (subst replay_loop.simps) auto
    then show ?thesis by (simp only: e play.simps)
  qed
qed

lemma replay_from_start:
  "replay_loop E ms index 0 g = play E (take (nat (index + 1)) ms) g"
  by (simp add: replay_loop_play)

lemma goToMove_Inr:
  "goToMove E st index = Inr st' \<longleftrightarrow>
     (\<exists>g. play E (take (nat (index + 1)) (moves st)) (new_Chess E) = Some g
        \<and> st' = st\<lparr>game := g, currentMoveIndex := index, showBestMove := False\<rparr>)"
  by (auto simp: goToMove_def replay_from_start split: option.splits)


lemma goToMove_Inl:
  "goToMove E st index = Inl e \<longleftrightarrow>
     play E (take (nat (index + 1)) (moves st)) (new_Chess E) = None"
  by (cases e) (auto simp: goToMove_def replay_from_start split: option.splits)

lemmas demo_simps =
  demo_Chess_def initial_coach_def loadGame_def goToMove_def goToNextMove_def
  goToPreviousMove_def makeMove_def replay_from_start cursor_in_bounds_def arrows_effect_def

lemma demo_loaded_eq:
  "demo_loaded = \<lparr>game = [], moveHistory = [''a'', ''b'', ''c''], analysis = None,
    arrows = [], showBestMove = False, currentMoveIndex = 0,
    moves = ''abc'', isReviewMode = True, pgnInput = ''abc'', errorMessage = []\<rparr>"
  by (simp add: demo_loaded_def demo_simps)

text \<open>
  Claim C5, as stated, at a concrete input.  The specification's start-of-game value of
  the cursor is \<open>-1\<close>.  Loading the transcript \<open>abc\<close> succeeds and shows the initial
  position, and the cursor is not \<open>-1\<close>: \<open>loadGame\<close> calls \<open>setCurrentMoveIndex(0)\<close>.
\<close>

theorem loadGame_cursor_counterexample:
  "moves demo_loaded = ''abc'' \<and> game demo_loaded = new_Chess demo_Chess
   \<and> currentMoveIndex demo_loaded \<noteq> - 1"
  by (simp add: demo_loaded_eq demo_Chess_def)

text \<open>
  Claim C5, amended.  When the rules engine rejects the transcript, \<open>loadGame\<close> only
  sets the error message: the move list, the cursor, the board position and the move
  history are the ones before the call.  When the engine accepts it, the cursor is set
  to \<open>0\<close>, the board to the initial position, the move list to the moves of the
  transcript, and the move history is replaced by the notation of those moves, so that
  a history accumulated by direct play is gone.
\<close>

theorem loadGame_effect:
  "(loadPgn E (new_Chess E) (pgnInput st) = None \<longrightarrow>
      loadGame E st = st\<lparr>errorMessage := ''Invalid PGN format. Please check your input''\<rparr>
      \<and> moves (loadGame E st) = moves st
      \<and> currentMoveIndex (loadGame E st) = currentMoveIndex st
      \<and> game (loadGame E st) = game st
      \<and> moveHistory (loadGame E st) = moveHistory st)
   \<and> (loadPgn E (new_Chess E) (pgnInput st) = Some g \<longrightarrow>
      currentMoveIndex (loadGame E st) = 0
      \<and> game (loadGame E st) = new_Chess E
      \<and> moves (loadGame E st) = history_verbose E g
      \<and> moveHistory (loadGame E st) = history E g
      \<and> errorMessage (loadGame E st) = [])"
  by (simp add: loadGame_def)

theorem loadGame_effect_witness:
  "moveHistory demo_played = [''a'', ''b'', ''c'', ''x'']
   \<and> loadGame demo_Chess (demo_played\<lparr>pgnInput := ''a?''\<rparr>)
       = demo_played\<lparr>pgnInput := ''a?'',
           errorMessage := ''Invalid PGN format. Please check your input''\<rparr>
   \<and> currentMoveIndex (loadGame demo_Chess (demo_played\<lparr>pgnInput := ''de''\<rparr>)) = 0
   \<and> game (loadGame demo_Chess (demo_played\<lparr>pgnInput := ''de''\<rparr>)) = []
   \<and> moves (loadGame demo_Chess (demo_played\<lparr>pgnInput := ''de''\<rparr>)) = ''de''
   \<and> moveHistory (loadGame demo_Chess (demo_played\<lparr>pgnInput := ''de''\<rparr>)) = [''d'', ''e'']"
  using loadGame_effect [of demo_Chess "demo_played\<lparr>pgnInput := ''a?''\<rparr>" "''de''"]
    loadGame_effect [of demo_Chess "demo_played\<lparr>pgnInput := ''de''\<rparr>" "''de''"]
  by (simp add: demo_played_def demo_loaded_eq demo_Chess_def makeMove_def)

text \<open>
  Claim C6, as stated, at a concrete input.  With the three moves of \<open>abc\<close> loaded,
  \<open>goToMove(7)\<close> returns normally, replays the three moves, and stores \<open>7\<close> as the cursor,
  which is not below the length of the move list.
\<close>

theorem goToMove_unclamped_counterexample:
  "goToMove demo_Chess demo_loaded 7
     = Inr (demo_loaded\<lparr>game := ''abc'', currentMoveIndex := 7, showBestMove := False\<rparr>)
   \<and> \<not> cursor_in_bounds
         (demo_loaded\<lparr>game := ''abc'', currentMoveIndex := 7, showBestMove := False\<rparr>)"
  by (simp add: demo_loaded_eq demo_simps)

lemma play_take:
  "play E ms g \<noteq> None \<Longrightarrow> play E (take n ms) g \<noteq> None"
proof (induction ms arbitrary: n g)
  case Nil
  then show ?case by simp
next
  case (Cons m ms)
  show ?case
  proof (cases n)
    case 0
    then show ?thesis by simp
  next
    case (Suc k)
    with Cons show ?thesis by (auto split: option.splits)
  qed
qed

lemma goToMove_accepted_list:
  assumes "play E (moves st) (new_Chess E) \<noteq> None"
  shows "\<exists>g. goToMove E st i
    = Inr (st\<lparr>game := g, currentMoveIndex := i, showBestMove := False\<rparr>)"
proof -
  from play_take [OF assms, of "nat (i + 1)"]
  obtain g where "play E (take (nat (i + 1)) (moves st)) (new_Chess E) = Some g"
    by auto
  then show ?thesis by (auto simp: goToMove_Inr)
qed

lemma after_call_goToMove:
  "i < int (length (moves st)) \<Longrightarrow> - 1 \<le> i \<Longrightarrow> cursor_in_bounds st \<Longrightarrow>
     cursor_in_bounds (after_call (goToMove E st i) st)"
proof (cases "goToMove E st i")
  case (Inl e)
  assume "cursor_in_bounds st"
  with Inl show ?thesis by (simp add: after_call_def)
next
  case (Inr st')
  assume "i < int (length (moves st))" "- 1 \<le> i"
  moreover from Inr have "currentMoveIndex st' = i" "moves st' = moves st"
    by (auto simp: goToMove_Inr)
  ultimately show ?thesis using Inr by (simp add: after_call_def cursor_in_bounds_def)
qed

text \<open>
  Claim C6, amended.  When the rules engine accepts the replay of the first \<open>i + 1\<close> moves
  of the move list (at most the whole list) from the initial position, \<open>goToMove(i)\<close>
  returns with the replayed position and stores \<open>i\<close> itself as the cursor, so the
  invariant \<open>-1 \<le> cursor < len(MoveList)\<close> holds after it exactly when \<open>i\<close> is in that
  range; the replay, not the cursor, is clamped: an argument beyond the end of the list
  has the outcome and the position of the last index.  \<open>goToNextMove\<close> and
  \<open>goToPreviousMove\<close> preserve the invariant, and for a move list that the engine
  accepts they return, with the cursor moved by one inside the bounds and unchanged at
  the boundaries.  A successful \<open>loadGame\<close> sets the cursor to \<open>0\<close>, so the invariant
  holds after it exactly when the loaded move list is not empty; a failed \<open>loadGame\<close>
  preserves it.
\<close>

theorem cursor_bounds_navigation:
  "(play E (take (nat (i + 1)) (moves st)) (new_Chess E) = Some g1 \<longrightarrow>
      goToMove E st i
        = Inr (st\<lparr>game := g1, currentMoveIndex := i, showBestMove := False\<rparr>)
      \<and> (cursor_in_bounds (st\<lparr>game := g1, currentMoveIndex := i, showBestMove := False\<rparr>)
           \<longleftrightarrow> - 1 \<le> i \<and> i < int (length (moves st))))
   \<and> (int (length (moves st)) - 1 \<le> i \<longrightarrow>
      map_sum id game (goToMove E st i)
        = map_sum id game (goToMove E st (int (length (moves st)) - 1)))
   \<and> (cursor_in_bounds st \<longrightarrow>
      cursor_in_bounds (after_call (goToNextMove E st) st)
      \<and> cursor_in_bounds (after_call (goToPreviousMove E st) st))
   \<and> (cursor_in_bounds st \<and> play E (moves st) (new_Chess E) \<noteq> None \<longrightarrow>
      (\<exists>st'. goToNextMove E st = Inr st' \<and> cursor_in_bounds st'
         \<and> currentMoveIndex st' =
             (if currentMoveIndex st < int (length (moves st)) - 1
              then currentMoveIndex st + 1 else currentMoveIndex st))
      \<and> (\<exists>st'. goToPreviousMove E st = Inr st' \<and> cursor_in_bounds st'
         \<and> currentMoveIndex st' =
             (if currentMoveIndex st > 0
              then currentMoveIndex st - 1 else currentMoveIndex st)))
   \<and> (loadPgn E (new_Chess E) (pgnInput st) = Some g \<longrightarrow>
      (cursor_in_bounds (loadGame E st) \<longleftrightarrow> history_verbose E g \<noteq> []))
   \<and> (loadPgn E (new_Chess E) (pgnInput st) = None \<and> cursor_in_bounds st \<longrightarrow>
      cursor_in_bounds (loadGame E st))"
proof -
  have go: "play E (take (nat (i + 1)) (moves st)) (new_Chess E) = Some g1 \<longrightarrow>
      goToMove E st i
        = Inr (st\<lparr>game := g1, currentMoveIndex := i, showBestMove := False\<rparr>)
      \<and> (cursor_in_bounds (st\<lparr>game := g1, currentMoveIndex := i, showBestMove := False\<rparr>)
           \<longleftrightarrow> - 1 \<le> i \<and> i < int (length (moves st)))"
    by (simp add: goToMove_Inr cursor_in_bounds_def)
  have clamp: "int (length (moves st)) - 1 \<le> i \<longrightarrow>
      map_sum id game (goToMove E st i)
        = map_sum id game (goToMove E st (int (length (moves st)) - 1))"
  proof
    assume "int (length (moves st)) - 1 \<le> i"
    then have "take (nat (i + 1)) (moves st)
        = take (nat (int (length (moves st)) - 1 + 1)) (moves st)"
      by simp
    then show "map_sum id game (goToMove E st i)
        = map_sum id game (goToMove E st (int (length (moves st)) - 1))"
      by (simp add: goToMove_def replay_from_start split: option.splits)
  qed
  have keep: "cursor_in_bounds st \<longrightarrow>
      cursor_in_bounds (after_call (goToNextMove E st) st)
      \<and> cursor_in_bounds (after_call (goToPreviousMove E st) st)"
  proof
    assume inv: "cursor_in_bounds st"
    have n: "cursor_in_bounds (after_call (goToNextMove E st) st)"
    proof (cases "currentMoveIndex st < int (length (moves st)) - 1")
      case True
      with inv after_call_goToMove [of "currentMoveIndex st + 1" st E] show ?thesis
        by (simp add: goToNextMove_def cursor_in_bounds_def)
    next
      case False
      with inv show ?thesis by (simp add: goToNextMove_def after_call_def)
    qed
    have p: "cursor_in_bounds (after_call (goToPreviousMove E st) st)"
    proof (cases "currentMoveIndex st > 0")
      case True
      with inv after_call_goToMove [of "currentMoveIndex st - 1" st E] show ?thesis
        by (simp add: goToPreviousMove_def cursor_in_bounds_def)
    next
      case False
      with inv show ?thesis by (simp add: goToPreviousMove_def after_call_def)
    qed
    from n p show "cursor_in_bounds (after_call (goToNextMove E st) st)
      \<and> cursor_in_bounds (after_call (goToPreviousMove E st) st)" by simp
  qed
  have wrap: "cursor_in_bounds st \<and> play E (moves st) (new_Chess E) \<noteq> None \<longrightarrow>
      (\<exists>st'. goToNextMove E st = Inr st' \<and> cursor_in_bounds st'
         \<and> currentMoveIndex st' =
             (if currentMoveIndex st < int (length (moves st)) - 1
              then currentMoveIndex st + 1 else currentMoveIndex st))
      \<and> (\<exists>st'. goToPreviousMove E st = Inr st' \<and> cursor_in_bounds st'
         \<and> currentMoveIndex st' =
             (if currentMoveIndex st > 0
              then currentMoveIndex st - 1 else currentMoveIndex st))"
  proof
    assume h: "cursor_in_bounds st \<and> play E (moves st) (new_Chess E) \<noteq> None"
    then have inv: "cursor_in_bounds st" and acc: "play E (moves st) (new_Chess E) \<noteq> None"
      by simp_all
    have n: "\<exists>st'. goToNextMove E st = Inr st' \<and> cursor_in_bounds st'
         \<and> currentMoveIndex st' =
             (if currentMoveIndex st < int (length (moves st)) - 1
              then currentMoveIndex st + 1 else currentMoveIndex st)"
      using inv goToMove_accepted_list [OF acc, of "currentMoveIndex st + 1"]
      by (auto simp: goToNextMove_def cursor_in_bounds_def)
    have p: "\<exists>st'. goToPreviousMove E st = Inr st' \<and> cursor_in_bounds st'
         \<and> currentMoveIndex st' =
             (if currentMoveIndex st > 0
              then currentMoveIndex st - 1 else currentMoveIndex st)"
      using inv goToMove_accepted_list [OF acc, of "currentMoveIndex st - 1"]
      by (auto simp: goToPreviousMove_def cursor_in_bounds_def)
    from n p show "(\<exists>st'. goToNextMove E st = Inr st' \<and> cursor_in_bounds st'
         \<and> currentMoveIndex st' =
             (if currentMoveIndex st < int (length (moves st)) - 1
              then currentMoveIndex st + 1 else currentMoveIndex st))
      \<and> (\<exists>st'. goToPreviousMove E st = Inr st' \<and> cursor_in_bounds st'
         \<and> currentMoveIndex st' =
             (if currentMoveIndex st > 0
              then currentMoveIndex st - 1 else currentMoveIndex st))"
      by simp
  qed
  have ld: "loadPgn E (new_Chess E) (pgnInput st) = Some g \<longrightarrow>
      (cursor_in_bounds (loadGame E st) \<longleftrightarrow> history_verbose E g \<noteq> [])"
    by (simp add: loadGame_def cursor_in_bounds_def)
  have ldf: "loadPgn E (new_Chess E) (pgnInput st) = None \<and> cursor_in_bounds st \<longrightarrow>
      cursor_in_bounds (loadGame E st)"
    by (simp add: loadGame_def cursor_in_bounds_def)
  from go clamp keep wrap ld ldf show ?thesis by blast
qed

theorem cursor_bounds_navigation_witness:
  "play demo_Chess (take 2 (moves demo_loaded)) (new_Chess demo_Chess) = Some ''ab''
   \<and> goToMove demo_Chess demo_loaded 1
     = Inr (demo_loaded\<lparr>game := ''ab'', currentMoveIndex := 1, showBestMove := False\<rparr>)
   \<and> cursor_in_bounds (demo_loaded\<lparr>game := ''ab'', currentMoveIndex := 1, showBestMove := False\<rparr>)
   \<and> play demo_Chess (take 8 (moves demo_loaded)) (new_Chess demo_Chess) = Some ''abc''
   \<and> goToMove demo_Chess demo_loaded 7
     = Inr (demo_loaded\<lparr>game := ''abc'', currentMoveIndex := 7, showBestMove := False\<rparr>)
   \<and> map_sum id game (goToMove demo_Chess demo_loaded 2) = Inr ''abc''
   \<and> cursor_in_bounds demo_loaded
   \<and> play demo_Chess (moves demo_loaded) (new_Chess demo_Chess) \<noteq> None
   \<and> (\<exists>st'. goToNextMove demo_Chess demo_loaded = Inr st' \<and> cursor_in_bounds st'
        \<and> currentMoveIndex st' = 1)
   \<and> (\<exists>st'. goToPreviousMove demo_Chess demo_loaded = Inr st' \<and> cursor_in_bounds st'
        \<and> currentMoveIndex st' = 0)
   \<and> cursor_in_bounds (after_call (goToNextMove demo_Chess demo_loaded) demo_loaded)
   \<and> \<not> cursor_in_bounds (loadGame demo_Chess ((initial_coach demo_Chess)\<lparr>pgnInput := []\<rparr>))
   \<and> cursor_in_bounds (loadGame demo_Chess (demo_loaded\<lparr>pgnInput := ''a?''\<rparr>))"
  using
    cursor_bounds_navigation [of demo_Chess 1 demo_loaded "''ab''" "''abc''"]
    cursor_bounds_navigation [of demo_Chess 7 demo_loaded "''abc''" "''abc''"]
    cursor_bounds_navigation [of demo_Chess 0
      "(initial_coach demo_Chess)\<lparr>pgnInput := []\<rparr>" "[]" "[]"]
    cursor_bounds_navigation [of demo_Chess 0 "demo_loaded\<lparr>pgnInput := ''a?''\<rparr>" "''a''" "[]"]
  by (simp add: demo_loaded_eq demo_simps)

lemma setup_loaded_eq:
  "setup_loaded = \<lparr>game = (False, []), moveHistory = [''a'', ''!'', ''c''], analysis = None,
    arrows = [], showBestMove = False, currentMoveIndex = 0,
    moves = ''a!c'', isReviewMode = True, pgnInput = ''#a!c'', errorMessage = []\<rparr>"
  by (simp add: setup_loaded_def setup_Chess_def initial_coach_def loadGame_def)

text \<open>
  What \<open>goToMove\<close> does when the rules engine accepts the replay: it returns the state
  with the replayed position, a second call returns the same state, the result does not
  depend on the cursor and the position before the call, and the arrow is hidden.
\<close>

lemma goToMove_accepted:
  assumes "play E (take (nat (i + 1)) (moves st)) (new_Chess E) = Some g1"
  shows "goToMove E st i
      = Inr (st\<lparr>game := g1, currentMoveIndex := i, showBestMove := False\<rparr>)"
    and "goToMove E (st\<lparr>game := g1, currentMoveIndex := i, showBestMove := False\<rparr>) i
      = Inr (st\<lparr>game := g1, currentMoveIndex := i, showBestMove := False\<rparr>)"
    and "map_sum id game (goToMove E (st\<lparr>currentMoveIndex := c, game := g\<rparr>) i) = Inr g1"
    and "arrows (arrows_effect (st\<lparr>game := g1, currentMoveIndex := i, showBestMove := False\<rparr>))
      = []"
  using assms
  by (simp_all add: goToMove_Inr goToMove_def replay_from_start arrows_effect_def
      split: option.splits)

text \<open>
  Claim C7, at a failing input.  The transcript \<open>#a!c\<close> is accepted by \<open>loadGame\<close> and
  gives the three moves \<open>a!c\<close>.  The index \<open>1\<close> is in the range of the claim, and
  \<open>goToMove(1)\<close> raises the exception of the rules engine, because the replay starts from
  \<open>new Chess()\<close> and nothing catches: no position is reconstructed, and after the call
  the position is the one before it, whatever that was.
\<close>

theorem goToMove_raises_in_range:
  "loadPgn setup_Chess (new_Chess setup_Chess) ''#a!c'' = Some (True, ''a!c'')
   \<and> moves setup_loaded = ''a!c''
   \<and> play setup_Chess (take 2 (moves setup_loaded)) (new_Chess setup_Chess) = None
   \<and> goToMove setup_Chess setup_loaded 1 = Inl EngineError
   \<and> game (after_call (goToMove setup_Chess setup_loaded 1) setup_loaded) = (False, [])
   \<and> game (after_call
        (goToMove setup_Chess (setup_loaded\<lparr>game := (False, ''a''), currentMoveIndex := 0\<rparr>) 1)
        (setup_loaded\<lparr>game := (False, ''a''), currentMoveIndex := 0\<rparr>)) = (False, ''a'')"
  by (simp add: setup_loaded_eq setup_Chess_def goToMove_def replay_from_start after_call_def)

text \<open>
  Claim C10, at a failing input.  With the transcript \<open>#a!c\<close> loaded and the best move
  shown, \<open>goToMove(1)\<close> raises the exception of the rules engine before it reaches
  \<open>setShowBestMove(false)\<close>: after the call the flag is still true and the arrows effect
  still gives the arrow.
\<close>

theorem goToMove_raise_keeps_arrow:
  "showBestMove setup_shown
   \<and> arrows (arrows_effect setup_shown) = [(''e2'', ''e4'', arrow_colour)]
   \<and> goToMove setup_Chess setup_shown 1 = Inl EngineError
   \<and> showBestMove (after_call (goToMove setup_Chess setup_shown 1) setup_shown)
   \<and> arrows (arrows_effect (after_call (goToMove setup_Chess setup_shown 1) setup_shown))
       = [(''e2'', ''e4'', arrow_colour)]"
  by (simp add: setup_shown_def setup_loaded_eq setup_Chess_def goToMove_def
      replay_from_start after_call_def arrows_effect_def falsy_def bestMoveToArrow_def
      substring_def)

section \<open>Properties of the connection manager\<close>

lemmas session_simps =
  constructor_def connect_def onopen_def onclose_def onerror_def onmessage_def
  tryReconnect_def disconnect_def ws_close_def analyze_def fallbackToHttp_def
  analyzePosition_def fallback_settled_def channel_open_def falsy_def

lemmas json_simps =
  QuoteJSONString_def escape_unit_def Number_toString_def decimal.simps digit_char_def
  hex_digit_def

lemma demo_session_reached:
  "run [Call_connect, Ev_open 0] constructor = Some demo_session"
  by (simp add: demo_session_def session_simps)

text \<open>
  Claim C9.  For a falsy position argument (absent, or the empty string), \<open>analyze\<close> and
  \<open>fallbackToHttp\<close> return the state they were called in: nothing is sent on the
  channel, no request is issued, the callback is not called, and no field of the
  connection manager changes.
\<close>

theorem falsy_position_noop:
  "falsy fen \<Longrightarrow> analyze fen w = w \<and> fallbackToHttp fen w = w"
  by (simp add: analyze_def fallbackToHttp_def)

theorem falsy_position_noop_witness:
  "falsy None \<and> falsy (Some [])
   \<and> analyze None demo_session = demo_session
   \<and> analyze (Some []) demo_session = demo_session
   \<and> fallbackToHttp None demo_session = demo_session
   \<and> fallbackToHttp (Some []) (disconnect demo_session) = disconnect demo_session"
  using falsy_position_noop [of None demo_session]
    falsy_position_noop [of "Some []" demo_session]
    falsy_position_noop [of "Some []" "disconnect demo_session"]
  by (simp add: falsy_def)

text \<open>
  Claim C3.  For a non-empty position, \<open>analyze\<close> on an open channel sends exactly one
  serialised message on the current socket and issues no request; in every other state
  it sends nothing and issues exactly one request of the fallback, and when that request
  settles with a result, the result is passed to the callback \<open>onAnalysis\<close>, the one that
  a message of the channel is passed to.
\<close>

theorem analyze_route:
  assumes "fen \<noteq> []"
  shows "(channel_open w \<longrightarrow>
       (\<exists>i. ws w = Some i
          \<and> analyze (Some fen) w
            = w\<lparr>sent := sent w @ [(i, JSON_stringify (JObject [(''fen'', JString fen)]))]\<rparr>)
       \<and> length (sent (analyze (Some fen) w)) = length (sent w) + 1
       \<and> fetches (analyze (Some fen) w) = fetches w)
   \<and> (\<not> channel_open w \<longrightarrow>
       analyze (Some fen) w = analyzePosition fen None w
       \<and> sent (analyze (Some fen) w) = sent w
       \<and> length (fetches (analyze (Some fen) w)) = length (fetches w) + 1
       \<and> step (Ev_response (length (fetches w)) (Ok_json r)) (analyze (Some fen) w)
           = Some (w\<lparr>onAnalysis_log := onAnalysis_log w @ [r]\<rparr>))
   \<and> (i < length (sockets w) \<and> sockets w ! i = OPEN \<longrightarrow>
       step (Ev_message i (Some r)) w = Some (w\<lparr>onAnalysis_log := onAnalysis_log w @ [r]\<rparr>))"
proof -
  have opened: "channel_open w \<longrightarrow>
       (\<exists>i. ws w = Some i
          \<and> analyze (Some fen) w
            = w\<lparr>sent := sent w @ [(i, JSON_stringify (JObject [(''fen'', JString fen)]))]\<rparr>)
       \<and> length (sent (analyze (Some fen) w)) = length (sent w) + 1
       \<and> fetches (analyze (Some fen) w) = fetches w"
    using assms
    by (auto simp: analyze_def falsy_def channel_open_def split: option.splits)
  have other: "\<not> channel_open w \<longrightarrow>
       analyze (Some fen) w = analyzePosition fen None w
       \<and> sent (analyze (Some fen) w) = sent w
       \<and> length (fetches (analyze (Some fen) w)) = length (fetches w) + 1
       \<and> step (Ev_response (length (fetches w)) (Ok_json r)) (analyze (Some fen) w)
           = Some (w\<lparr>onAnalysis_log := onAnalysis_log w @ [r]\<rparr>)"
    using assms
    by (simp add: analyze_def falsy_def fallbackToHttp_def analyzePosition_def
        fallback_settled_def)
  have msg: "i < length (sockets w) \<and> sockets w ! i = OPEN \<longrightarrow>
       step (Ev_message i (Some r)) w = Some (w\<lparr>onAnalysis_log := onAnalysis_log w @ [r]\<rparr>)"
    by (simp add: onmessage_def)
  from opened other msg show ?thesis by blast
qed

theorem analyze_route_witness:
  "channel_open demo_session
   \<and> analyze (Some ''8/8 w'') demo_session
       = demo_session\<lparr>sent := [(0, JSON_stringify (JObject [(''fen'', JString ''8/8 w'')]))]\<rparr>
   \<and> fetches (analyze (Some ''8/8 w'') demo_session) = []
   \<and> \<not> channel_open (disconnect demo_session)
   \<and> sent (analyze (Some ''8/8 w'') (disconnect demo_session)) = []
   \<and> length (fetches (analyze (Some ''8/8 w'') (disconnect demo_session))) = 1
   \<and> step (Ev_response 0 (Ok_json demo_reply)) (analyze (Some ''8/8 w'') (disconnect demo_session))
       = Some ((disconnect demo_session)\<lparr>onAnalysis_log := [demo_reply]\<rparr>)
   \<and> step (Ev_message 0 (Some demo_reply)) demo_session
       = Some (demo_session\<lparr>onAnalysis_log := [demo_reply]\<rparr>)"
proof -
  have ne: "''8/8 w'' \<noteq> []" by simp
  show ?thesis
    using analyze_route [OF ne, where w = demo_session and i = 0 and r = demo_reply]
      analyze_route [OF ne, where w = "disconnect demo_session" and i = 0 and r = demo_reply]
    by (simp add: demo_session_def session_simps)
qed


text \<open>
  Claim C4, as stated, at a concrete input.  On the open channel of a connected session,
  \<open>analyze\<close> of the position \<open>8/8 w\<close> sends the text \<open>{"fen":"8/8 w"}\<close>, which is not the
  object with the key \<open>position\<close>.
\<close>

theorem analyze_key_counterexample:
  \<open>run [Call_connect, Ev_open 0] constructor = Some demo_session
   \<and> sent (analyze (Some ''8/8 w'') demo_session) = [(0, ''{"fen":"8/8 w"}'')]
   \<and> JSON_stringify (JObject [(''position'', JString ''8/8 w'')]) = ''{"position":"8/8 w"}''
   \<and> ''{"fen":"8/8 w"}'' \<noteq> ''{"position":"8/8 w"}''\<close>
  by (simp add: demo_session_def session_simps json_simps)

text \<open>
  Claim C4, amended.  A message that \<open>analyze\<close> sends over the channel is the JSON object
  with the single key \<open>fen\<close> carrying the position, without a depth; a request of the
  fallback is a POST to \<open>http://localhost:8000/analyze\<close> whose body is the object with the
  key \<open>fen\<close> and the key \<open>depth\<close>, which is 20 when \<open>analyzePosition\<close> gets no depth and
  the given depth otherwise.
\<close>

theorem analyze_payloads:
  assumes "fen \<noteq> []"
  shows \<open>(channel_open w \<longrightarrow>
       map snd (sent (analyze (Some fen) w))
         = map snd (sent w) @ [JSON_stringify (JObject [(''fen'', JString fen)])])
   \<and> (\<not> channel_open w \<longrightarrow>
       fetches (analyze (Some fen) w)
         = fetches w @
           [\<lparr>url = ''http://localhost:8000/analyze'', http_method = ''POST'',
             content_type = ''application/json'',
             body = JSON_stringify (JObject [(''fen'', JString fen), (''depth'', JNumber 20)])\<rparr>])
   \<and> JSON_stringify (JObject [(''fen'', JString fen)])
       = ''{"fen":'' @ QuoteJSONString fen @ ''}''
   \<and> JSON_stringify (JObject [(''fen'', JString fen), (''depth'', JNumber 20)])
       = ''{"fen":'' @ QuoteJSONString fen @ '',"depth":20}''
   \<and> map body (fetches (analyzePosition fen (Some d) w))
       = map body (fetches w)
         @ [JSON_stringify (JObject [(''fen'', JString fen), (''depth'', JNumber d)])]\<close>
proof -
  have chan: "channel_open w \<longrightarrow>
       map snd (sent (analyze (Some fen) w))
         = map snd (sent w) @ [JSON_stringify (JObject [(''fen'', JString fen)])]"
    using assms
    by (auto simp: analyze_def falsy_def channel_open_def split: option.splits)
  have http: "\<not> channel_open w \<longrightarrow>
       fetches (analyze (Some fen) w)
         = fetches w @
           [\<lparr>url = ''http://localhost:8000/analyze'', http_method = ''POST'',
             content_type = ''application/json'',
             body = JSON_stringify (JObject [(''fen'', JString fen), (''depth'', JNumber 20)])\<rparr>]"
    using assms
    by (simp add: analyze_def falsy_def fallbackToHttp_def analyzePosition_def API_URL_def)
  have s1: \<open>JSON_stringify (JObject [(''fen'', JString fen)])
       = ''{"fen":'' @ QuoteJSONString fen @ ''}''\<close>
    by (simp add: QuoteJSONString_def escape_unit_def)
  have s2: \<open>JSON_stringify (JObject [(''fen'', JString fen), (''depth'', JNumber 20)])
       = ''{"fen":'' @ QuoteJSONString fen @ '',"depth":20}''\<close>
    by (simp add: json_simps)
  have dep: "map body (fetches (analyzePosition fen (Some d) w))
       = map body (fetches w)
         @ [JSON_stringify (JObject [(''fen'', JString fen), (''depth'', JNumber d)])]"
    by (simp add: analyzePosition_def)
  from chan http s1 s2 dep show ?thesis by blast
qed

theorem analyze_payloads_witness:
  \<open>map snd (sent (analyze (Some ''8/8 w'') demo_session)) = [''{"fen":"8/8 w"}'']
   \<and> map body (fetches (analyze (Some ''8/8 w'') (disconnect demo_session)))
       = [''{"fen":"8/8 w","depth":20}'']
   \<and> map body (fetches (analyzePosition ''8/8 w'' (Some 12) demo_session))
       = [''{"fen":"8/8 w","depth":12}'']\<close>
proof -
  have ne: "''8/8 w'' \<noteq> []" by simp
  show ?thesis
    using analyze_payloads [OF ne, where w = demo_session and d = 12]
      analyze_payloads [OF ne, where w = "disconnect demo_session" and d = 12]
    by (simp add: demo_session_def session_simps json_simps)
qed

text \<open>
  Claim C1, as stated, at concrete runs from the constructor.  After \<open>connect\<close>, the
  opening of the socket and \<open>disconnect\<close>, the close event of the socket schedules a
  reconnection, and the timer then calls \<open>connect\<close>, which creates a second socket, with
  no call of \<open>connect\<close> by the host.  And a timer that is pending when \<open>disconnect\<close> is
  called (here after a failed connection) is still pending after it.
\<close>

theorem disconnect_reconnects_counterexample:
  "run [Call_connect, Ev_open 0, Call_disconnect, Ev_close 0] constructor
     = Some (\<lparr>ws = Some 0, reconnectAttempts = 1, maxReconnectAttempts = 5,
          connected = False, sockets = [CLOSED], timers = [2000], sent = [],
          fetches = [], onAnalysis_log = []\<rparr> :: analysis_result session)
   \<and> run [Call_connect, Ev_open 0, Call_disconnect, Ev_close 0, Ev_timeout] constructor
     = Some (\<lparr>ws = Some 1, reconnectAttempts = 1, maxReconnectAttempts = 5,
          connected = False, sockets = [CLOSED, CONNECTING], timers = [], sent = [],
          fetches = [], onAnalysis_log = []\<rparr> :: analysis_result session)
   \<and> run [Call_connect, Ev_close 0] constructor
     = Some (\<lparr>ws = Some 0, reconnectAttempts = 1, maxReconnectAttempts = 5,
          connected = False, sockets = [CLOSED], timers = [2000], sent = [],
          fetches = [], onAnalysis_log = []\<rparr> :: analysis_result session)
   \<and> run [Call_connect, Ev_close 0, Call_disconnect] constructor
     = Some (\<lparr>ws = Some 0, reconnectAttempts = 1, maxReconnectAttempts = 5,
          connected = False, sockets = [CLOSED], timers = [2000], sent = [],
          fetches = [], onAnalysis_log = []\<rparr> :: analysis_result session)"
  by (simp add: session_simps)

text \<open>
  Claim C1, amended.  In every state, \<open>disconnect\<close> leaves the channel not open (an open
  channel is closing afterwards) and, when there is a channel object, sets \<open>connected\<close>
  to false; without a channel object it does nothing.  It does not cancel a pending
  timer and does not change the reconnect counter.
\<close>

theorem disconnect_effect:
  "timers (disconnect w) = timers w
   \<and> reconnectAttempts (disconnect w) = reconnectAttempts w
   \<and> sent (disconnect w) = sent w \<and> fetches (disconnect w) = fetches w
   \<and> onAnalysis_log (disconnect w) = onAnalysis_log w
   \<and> \<not> channel_open (disconnect w)
   \<and> (channel_open w \<longrightarrow> (\<exists>i. ws w = Some i \<and> sockets (disconnect w) ! i = CLOSING))
   \<and> (ws w \<noteq> None \<longrightarrow> \<not> connected (disconnect w))
   \<and> (ws w = None \<longrightarrow> disconnect w = w)"
  by (auto simp: disconnect_def channel_open_def ws_close_def split: option.splits)

theorem disconnect_effect_witness:
  "channel_open demo_session
   \<and> disconnect demo_session = demo_session\<lparr>sockets := [CLOSING], connected := False\<rparr>
   \<and> \<not> channel_open (disconnect demo_session)
   \<and> timers (disconnect (demo_session\<lparr>timers := [2000]\<rparr>)) = [2000]
   \<and> disconnect (constructor :: analysis_result session) = constructor"
  using disconnect_effect [of demo_session]
    disconnect_effect [of "demo_session\<lparr>timers := [2000]\<rparr>"]
    disconnect_effect [of "constructor :: analysis_result session"]
  by (simp add: demo_session_def session_simps)


lemma step_maxReconnectAttempts:
  "step e w = Some w' \<Longrightarrow> maxReconnectAttempts w' = maxReconnectAttempts w"
  by (cases e) (auto simp: session_simps Let_def split: if_splits list.splits option.splits http_outcome.splits)

lemma step_reconnectAttempts:
  "step e w = Some w' \<Longrightarrow>
     reconnectAttempts w' =
       (if is_open e then 0
        else if is_close e \<and> reconnectAttempts w < maxReconnectAttempts w
          then reconnectAttempts w + 1
        else reconnectAttempts w)"
  by (cases e) (auto simp: session_simps Let_def split: if_splits list.splits option.splits http_outcome.splits)

lemma step_close_timers:
  "step (Ev_close i) w = Some w' \<Longrightarrow>
     timers w' =
       (if reconnectAttempts w < maxReconnectAttempts w then timers w @ [2000] else timers w)"
  by (auto simp: onclose_def tryReconnect_def split: if_splits)

lemma closures_Cons:
  "closures (e # es) = (if is_close e then 1 else 0) + closures es"
  by (simp add: closures_def)

lemma run_reconnectAttempts:
  "run es w = Some w' \<Longrightarrow> \<forall>e \<in> set es. \<not> is_open e \<Longrightarrow>
     maxReconnectAttempts w' = maxReconnectAttempts w
     \<and> reconnectAttempts w' =
         max (reconnectAttempts w)
           (min (maxReconnectAttempts w) (reconnectAttempts w + closures es))"
proof (induction es arbitrary: w)
  case Nil
  then show ?case by (simp add: closures_def)
next
  case (Cons e es)
  from Cons.prems(1) obtain w1 where s: "step e w = Some w1" and r: "run es w1 = Some w'"
    by (auto split: option.splits)
  from Cons.prems(2) have no: "\<not> is_open e" "\<forall>e \<in> set es. \<not> is_open e" by simp_all
  from Cons.IH [OF r no(2)] have ih:
    "maxReconnectAttempts w' = maxReconnectAttempts w1"
    "reconnectAttempts w' =
       max (reconnectAttempts w1)
         (min (maxReconnectAttempts w1) (reconnectAttempts w1 + closures es))"
    by simp_all
  have m: "maxReconnectAttempts w1 = maxReconnectAttempts w"
    using s by (rule step_maxReconnectAttempts)
  have a: "reconnectAttempts w1 =
       (if is_close e \<and> reconnectAttempts w < maxReconnectAttempts w
          then reconnectAttempts w + 1 else reconnectAttempts w)"
    using step_reconnectAttempts [OF s] no(1) by simp
  show ?case
    unfolding ih m a closures_Cons by (simp add: max_def min_def)
qed

text \<open>
  Claim C2.  With \<open>maxReconnectAttempts = 5\<close>, as the constructor sets it: the handler of
  a closure schedules a timer of 2000 ms and increments the counter if and only if the
  counter is below 5, and the firing of a timer calls \<open>connect\<close>; the counter becomes zero
  at the opening of a socket and never decreases at any other event; in a run without
  an opening that starts with the counter at zero, the counter is the number of closures,
  at most 5; and after a run with at least 5 closures and no opening, from any state, a
  further closure schedules no timer.
\<close>

theorem reconnect_bounded:
  assumes "maxReconnectAttempts w = 5"
  shows
   "onclose w =
      (if reconnectAttempts w < 5
       then w\<lparr>connected := False, reconnectAttempts := reconnectAttempts w + 1,
              timers := timers w @ [2000]\<rparr>
       else w\<lparr>connected := False\<rparr>)
    \<and> (step (Ev_close i) w = Some w1 \<longrightarrow>
         (if reconnectAttempts w < 5
          then timers w1 = timers w @ [2000] \<and> reconnectAttempts w1 = reconnectAttempts w + 1
          else timers w1 = timers w \<and> reconnectAttempts w1 = reconnectAttempts w))
    \<and> (timers w = d # ts \<longrightarrow> step Ev_timeout w = Some (connect (w\<lparr>timers := ts\<rparr>)))
    \<and> (step e w = Some w2 \<longrightarrow>
         (is_open e \<longrightarrow> reconnectAttempts w2 = 0)
         \<and> (\<not> is_open e \<longrightarrow> reconnectAttempts w \<le> reconnectAttempts w2))
    \<and> (run es w = Some w3 \<and> (\<forall>e \<in> set es. \<not> is_open e) \<and> reconnectAttempts w = 0 \<longrightarrow>
         reconnectAttempts w3 = min 5 (closures es))
    \<and> (run es w = Some w3 \<and> (\<forall>e \<in> set es. \<not> is_open e) \<and> 5 \<le> closures es \<longrightarrow>
         5 \<le> reconnectAttempts w3 \<and> tryReconnect w3 = w3
         \<and> (\<forall>j w4. step (Ev_close j) w3 = Some w4 \<longrightarrow> timers w4 = timers w3))"
proof -
  have c1: "onclose w =
      (if reconnectAttempts w < 5
       then w\<lparr>connected := False, reconnectAttempts := reconnectAttempts w + 1,
              timers := timers w @ [2000]\<rparr>
       else w\<lparr>connected := False\<rparr>)"
    using assms by (simp add: onclose_def tryReconnect_def)
  have c2: "step (Ev_close i) w = Some w1 \<longrightarrow>
         (if reconnectAttempts w < 5
          then timers w1 = timers w @ [2000] \<and> reconnectAttempts w1 = reconnectAttempts w + 1
          else timers w1 = timers w \<and> reconnectAttempts w1 = reconnectAttempts w)"
    using assms step_close_timers [of i w w1] step_reconnectAttempts [of "Ev_close i" w w1]
    by simp
  have c3: "timers w = d # ts \<longrightarrow> step Ev_timeout w = Some (connect (w\<lparr>timers := ts\<rparr>))"
    by simp
  have c4: "step e w = Some w2 \<longrightarrow>
         (is_open e \<longrightarrow> reconnectAttempts w2 = 0)
         \<and> (\<not> is_open e \<longrightarrow> reconnectAttempts w \<le> reconnectAttempts w2)"
    using step_reconnectAttempts [of e w w2] by simp
  have c5: "run es w = Some w3 \<and> (\<forall>e \<in> set es. \<not> is_open e) \<and> reconnectAttempts w = 0 \<longrightarrow>
         reconnectAttempts w3 = min 5 (closures es)"
    using assms run_reconnectAttempts [of es w w3] by auto
  have c6: "run es w = Some w3 \<and> (\<forall>e \<in> set es. \<not> is_open e) \<and> 5 \<le> closures es \<longrightarrow>
         5 \<le> reconnectAttempts w3 \<and> tryReconnect w3 = w3
         \<and> (\<forall>j w4. step (Ev_close j) w3 = Some w4 \<longrightarrow> timers w4 = timers w3)"
  proof
    assume h: "run es w = Some w3 \<and> (\<forall>e \<in> set es. \<not> is_open e) \<and> 5 \<le> closures es"
    with assms run_reconnectAttempts [of es w w3]
    have m: "maxReconnectAttempts w3 = 5" and a: "5 \<le> reconnectAttempts w3"
      by auto
    from m a have t: "tryReconnect w3 = w3" by (simp add: tryReconnect_def)
    have "\<forall>j w4. step (Ev_close j) w3 = Some w4 \<longrightarrow> timers w4 = timers w3"
      using m a step_close_timers by fastforce
    with a t show "5 \<le> reconnectAttempts w3 \<and> tryReconnect w3 = w3
         \<and> (\<forall>j w4. step (Ev_close j) w3 = Some w4 \<longrightarrow> timers w4 = timers w3)"
      by blast
  qed
  from c1 c2 c3 c4 c5 c6 show ?thesis by blast
qed

lemma five_closures_run: "run five_closures constructor = Some demo_failed_over"
  by (simp add: five_closures_def demo_failed_over_def session_simps)

theorem reconnect_bounded_witness:
  "maxReconnectAttempts (constructor :: analysis_result session) = 5
   \<and> run five_closures constructor = Some demo_failed_over
   \<and> closures five_closures = 5
   \<and> reconnectAttempts demo_failed_over = 5
   \<and> step (Ev_close 5) demo_failed_over
       = Some (demo_failed_over\<lparr>sockets := [CLOSED, CLOSED, CLOSED, CLOSED, CLOSED, CLOSED]\<rparr>)
   \<and> step (Ev_close 0) (connect constructor)
       = Some ((connect constructor)
           \<lparr>sockets := [CLOSED], reconnectAttempts := 1, timers := [2000]\<rparr>
           :: analysis_result session)
   \<and> step (Ev_open 1)
        (connect (demo_session\<lparr>sockets := [CLOSED], connected := False, reconnectAttempts := 3\<rparr>))
       = Some (demo_session\<lparr>sockets := [CLOSED, OPEN], ws := Some 1\<rparr>)"
proof -
  have m: "maxReconnectAttempts (constructor :: analysis_result session) = 5"
    by (simp add: constructor_def)
  have c: "closures five_closures = 5"
    by (simp add: five_closures_def closures_def)
  have n: "\<forall>e \<in> set five_closures. \<not> is_open e"
    by (simp add: five_closures_def)
  note t = reconnect_bounded [OF m, where es = five_closures and ?w3.0 = demo_failed_over]
  from t five_closures_run c n
  have "reconnectAttempts demo_failed_over = 5"
    and "\<forall>j w4. step (Ev_close j) demo_failed_over = Some w4 \<longrightarrow> timers w4 = timers demo_failed_over"
    by (simp_all add: constructor_def)
  moreover have "step (Ev_close 5) demo_failed_over
       = Some (demo_failed_over\<lparr>sockets := [CLOSED, CLOSED, CLOSED, CLOSED, CLOSED, CLOSED]\<rparr>)"
    by (simp add: demo_failed_over_def session_simps)
  moreover have "step (Ev_close 0) (connect constructor)
       = Some ((connect constructor)
           \<lparr>sockets := [CLOSED], reconnectAttempts := 1, timers := [2000]\<rparr>
           :: analysis_result session)"
    by (simp add: session_simps)
  moreover have "step (Ev_open 1)
        (connect (demo_session\<lparr>sockets := [CLOSED], connected := False, reconnectAttempts := 3\<rparr>))
       = Some (demo_session\<lparr>sockets := [CLOSED, OPEN], ws := Some 1\<rparr>)"
    by (simp add: demo_session_def session_simps)
  ultimately show ?thesis using m five_closures_run c by blast
qed

end
